theory Spec2Isabelle
  imports Main "HOL-Library.Word" "HOL-Library.Finite_Map"
begin

section \<open>The in-memory trace storage of the group-by-trace processor\<close>

text \<open>
  This theory embeds \<^verbatim>\<open>processor/groupbytraceprocessor/storage_memory.go\<close>.
  The methods of \<^verbatim>\<open>memoryStorage\<close> become functions that take the storage and the
  heap of resource-span objects and return them updated. Each data method holds the
  storage's lock from its first to its last statement, so one call is one atomic step.
\<close>

subsection \<open>Values of the \<^verbatim>\<open>pdata\<close> package\<close>

type_synonym byte = "8 word"

text \<open>
  A trace identifier is its sequence of bytes. The source type has a fixed width; no
  result below depends on the width, so the model allows any.
\<close>

type_synonym TraceID = "byte list"

text \<open>
  Modelled from the spec: \<^verbatim>\<open>pdata.TraceID.HexString\<close> is not part of the source file.
  The specification describes the key as the stable hexadecimal string form of the binary
  identifier: two lower-case hexadecimal digits for each byte, in order.
\<close>

definition hexdigit :: "nat \<Rightarrow> char" where
  "hexdigit n = ''0123456789abcdef'' ! n"

definition hexbyte :: "byte \<Rightarrow> string" where
  "hexbyte b = [hexdigit (unat b div 16), hexdigit (unat b mod 16)]"

definition HexString :: "TraceID \<Rightarrow> string" where
  "HexString traceID = concat (map hexbyte traceID)"

text \<open>
  A \<^verbatim>\<open>pdata.ResourceSpans\<close> is a handle to an object on the heap. The heap is the list
  of all objects allocated so far, an address is an index into it. The content of an
  object is opaque: \<open>None\<close> is the nil object that \<^verbatim>\<open>NewResourceSpans\<close> returns,
  \<open>Some p\<close> an initialised one with the data \<open>p\<close>.
\<close>

type_synonym addr = nat
type_synonym 'p heap = "'p option list"

text \<open>
  Modelled from the spec: \<^verbatim>\<open>pdata.NewResourceSpans\<close> and \<^verbatim>\<open>ResourceSpans.CopyTo\<close> are
  not part of the source file. The specification requires a batch to be an opaque,
  deeply copyable record: a new object is a fresh nil object, and a copy overwrites the
  whole content of the destination with the content of the source, sharing nothing.
\<close>

definition NewResourceSpans :: "'p heap \<Rightarrow> addr \<times> 'p heap" where
  "NewResourceSpans h = (length h, h @ [None])"

definition CopyTo :: "addr \<Rightarrow> addr \<Rightarrow> 'p heap \<Rightarrow> 'p heap" where
  "CopyTo ms dest h = h[dest := h ! ms]"

subsection \<open>Go slices, maps and errors\<close>

text \<open>A slice is nil or has elements; \<^verbatim>\<open>append\<close> to either gives a slice that is not nil.\<close>

datatype 'a slice = NilSlice | Slice "'a list"

fun elems :: "'a slice \<Rightarrow> 'a list" where
  "elems NilSlice = []"
| "elems (Slice xs) = xs"

definition append_slice :: "'a slice \<Rightarrow> 'a \<Rightarrow> 'a slice" where
  "append_slice s x = Slice (elems s @ [x])"

text \<open>Reading a map at a missing key gives the zero value of a slice type, nil.\<close>

definition index_map :: "(string, 'a slice) fmap \<Rightarrow> string \<Rightarrow> 'a slice" where
  "index_map m k = (case fmlookup m k of None \<Rightarrow> NilSlice | Some s \<Rightarrow> s)"

text \<open>A value of type \<^verbatim>\<open>error\<close> is \<open>None\<close> for nil and \<open>Some\<close> message otherwise.\<close>

type_synonym error = "string option"

subsection \<open>The storage\<close>

record memoryStorage =
  content :: "(string, addr slice) fmap"
  stopped :: bool
  metricsCollectionInterval :: int

definition newMemoryStorage :: memoryStorage where
  "newMemoryStorage =
     \<lparr>content = fmempty, stopped = False, metricsCollectionInterval = 1000000000\<rparr>"

definition createOrAppend ::
  "TraceID \<Rightarrow> addr \<Rightarrow> memoryStorage \<Rightarrow> 'p heap \<Rightarrow> error \<times> memoryStorage \<times> 'p heap" where
  "createOrAppend traceID rs st h =
     (let sTraceID = HexString traceID;
          c1 = (if fmlookup (content st) sTraceID = None
                then fmupd sTraceID (Slice []) (content st) else content st);
          (newRS, h1) = NewResourceSpans h;
          h2 = CopyTo rs newRS h1;
          c2 = fmupd sTraceID (append_slice (index_map c1 sTraceID) newRS) c1
      in (None, st\<lparr>content := c2\<rparr>, h2))"

text \<open>The loop of \<^verbatim>\<open>get\<close> and of \<^verbatim>\<open>delete\<close> that copies each stored object.\<close>

fun copy_each :: "addr list \<Rightarrow> addr slice \<Rightarrow> 'p heap \<Rightarrow> addr slice \<times> 'p heap" where
  "copy_each [] result h = (result, h)"
| "copy_each (rs # rss) result h =
     (let (newRS, h1) = NewResourceSpans h;
          h2 = CopyTo rs newRS h1
      in copy_each rss (append_slice result newRS) h2)"

definition get ::
  "TraceID \<Rightarrow> memoryStorage \<Rightarrow> 'p heap \<Rightarrow> (addr slice \<times> error) \<times> memoryStorage \<times> 'p heap" where
  "get traceID st h =
     (let sTraceID = HexString traceID
      in case fmlookup (content st) sTraceID of
           None \<Rightarrow> ((NilSlice, None), st, h)
         | Some rss \<Rightarrow>
             (let (result, h1) = copy_each (elems rss) NilSlice h
              in ((result, None), st, h1)))"

definition delete ::
  "TraceID \<Rightarrow> memoryStorage \<Rightarrow> 'p heap \<Rightarrow> (addr slice \<times> error) \<times> memoryStorage \<times> 'p heap" where
  "delete traceID st h =
     (let sTraceID = HexString traceID;
          rss = index_map (content st) sTraceID;
          (result, h1) = copy_each (elems rss) NilSlice h
      in ((result, None), st\<lparr>content := fmdrop sTraceID (content st)\<rparr>, h1))"

definition shutdown :: "memoryStorage \<Rightarrow> error \<times> memoryStorage" where
  "shutdown st = (None, st\<lparr>stopped := True\<rparr>)"

definition count :: "memoryStorage \<Rightarrow> int \<times> memoryStorage" where
  "count st = (int (fcard (fmdom (content st))), st)"

subsection \<open>The storage, its caller and its timers\<close>

text \<open>
  One run of \<^verbatim>\<open>periodicMetrics\<close> is two atomic steps, each under its own lock: it
  records the count, then reads the flag and either returns or arms a timer that runs
  \<^verbatim>\<open>periodicMetrics\<close> again. A chain of such runs is at one of four places.
\<close>

datatype place = AtRecord | AtCheck | Armed | Returned

text \<open>
  The world is the storage, the heap, the addresses the caller holds (the objects it
  has built itself and the ones \<^verbatim>\<open>get\<close> and \<^verbatim>\<open>delete\<close> have returned to it), one
  place for each chain that \<^verbatim>\<open>start\<close> has launched, and the measurements given to
  \<^verbatim>\<open>stats.Record\<close> so far, oldest first.
\<close>

record 'p world =
  store :: memoryStorage
  heap :: "'p heap"
  held :: "addr set"
  timers :: "place list"
  recorded :: "int list"

definition newWorld :: "'p world" where
  "newWorld = \<lparr>store = newMemoryStorage, heap = [], held = {}, timers = [], recorded = []\<rparr>"

definition start :: "'p world \<Rightarrow> error \<times> 'p world" where
  "start w = (None, w\<lparr>timers := timers w @ [AtRecord]\<rparr>)"

definition periodicMetrics :: "nat \<Rightarrow> 'p world \<Rightarrow> 'p world" where
  "periodicMetrics i w =
     (case timers w ! i of
        AtRecord \<Rightarrow>
          (let (numTraces, st1) = count (store w)
           in w\<lparr>store := st1, recorded := recorded w @ [numTraces],
                timers := (timers w)[i := AtCheck]\<rparr>)
      | AtCheck \<Rightarrow>
          (if stopped (store w) then w\<lparr>timers := (timers w)[i := Returned]\<rparr>
           else w\<lparr>timers := (timers w)[i := Armed]\<rparr>)
      | Armed \<Rightarrow> w\<lparr>timers := (timers w)[i := AtRecord]\<rparr>
      | Returned \<Rightarrow> w)"

text \<open>
  What can happen: the caller builds a batch or overwrites one it holds, calls a method
  of the storage, or chain \<open>i\<close> takes its next step.
\<close>

datatype 'p event =
    NewBatch "'p option"
  | Mutate addr "'p option"
  | Append TraceID addr
  | Get TraceID
  | Delete TraceID
  | Count
  | Start
  | Shutdown
  | Tick nat

fun legal :: "'p event \<Rightarrow> 'p world \<Rightarrow> bool" where
  "legal (Mutate a v) w = (a \<in> held w)"
| "legal (Append t a) w = (a \<in> held w)"
| "legal (Tick i) w = (i < length (timers w))"
| "legal _ w = True"

fun step :: "'p event \<Rightarrow> 'p world \<Rightarrow> 'p world" where
  "step (NewBatch v) w = w\<lparr>heap := heap w @ [v], held := insert (length (heap w)) (held w)\<rparr>"
| "step (Mutate a v) w = w\<lparr>heap := (heap w)[a := v]\<rparr>"
| "step (Append t a) w =
     (let (err, st1, h1) = createOrAppend t a (store w) (heap w)
      in w\<lparr>store := st1, heap := h1\<rparr>)"
| "step (Get t) w =
     (let ((res, err), st1, h1) = get t (store w) (heap w)
      in w\<lparr>store := st1, heap := h1, held := held w \<union> set (elems res)\<rparr>)"
| "step (Delete t) w =
     (let ((res, err), st1, h1) = delete t (store w) (heap w)
      in w\<lparr>store := st1, heap := h1, held := held w \<union> set (elems res)\<rparr>)"
| "step Count w = (let (n, st1) = count (store w) in w\<lparr>store := st1\<rparr>)"
| "step Start w = snd (start w)"
| "step Shutdown w = (let (err, st1) = shutdown (store w) in w\<lparr>store := st1\<rparr>)"
| "step (Tick i) w = periodicMetrics i w"

fun run :: "'p event list \<Rightarrow> 'p world \<Rightarrow> 'p world option" where
  "run [] w = Some w"
| "run (e # es) w = (if legal e w then run es (step e w) else None)"

subsection \<open>Notions of the specification\<close>

text \<open>
  The contents of the batches stored for a trace, in order; none when the trace has no
  entry.
\<close>

definition stored_values :: "memoryStorage \<Rightarrow> 'p heap \<Rightarrow> TraceID \<Rightarrow> 'p option list" where
  "stored_values st h k = map (nth h) (elems (index_map (content st) (HexString k)))"

text \<open>
  What the caller sees of the outcome of \<^verbatim>\<open>get\<close> or \<^verbatim>\<open>delete\<close>: whether the slice
  is nil, the contents of the returned batches in order, and the error.
\<close>

definition returned ::
  "(addr slice \<times> error) \<times> memoryStorage \<times> 'p heap \<Rightarrow> bool \<times> 'p option list \<times> error" where
  "returned r =
     (case r of ((res, err), st, h) \<Rightarrow> (res = NilSlice, map (nth h) (elems res), err))"

text \<open>What a following \<^verbatim>\<open>get\<close> and a following \<^verbatim>\<open>delete\<close> of a trace would return.\<close>

definition answers ::
  "memoryStorage \<Rightarrow> 'p heap \<Rightarrow> TraceID \<Rightarrow>
     (bool \<times> 'p option list \<times> error) \<times> (bool \<times> 'p option list \<times> error)" where
  "answers st h k = (returned (get k st h), returned (delete k st h))"

text \<open>
  A trace has had an append since its last delete when some event of the history
  appends to it and no later event deletes it.
\<close>

fun is_append :: "TraceID \<Rightarrow> 'p event \<Rightarrow> bool" where
  "is_append k (Append t a) = (t = k)"
| "is_append k _ = False"

fun appended_since_delete :: "TraceID \<Rightarrow> 'p event list \<Rightarrow> bool" where
  "appended_since_delete k [] = False"
| "appended_since_delete k (e # es) =
     ((is_append k e \<and> Delete k \<notin> set es) \<or> appended_since_delete k es)"

text \<open>
  The contents, at the time of each call, of the batches given to \<^verbatim>\<open>createOrAppend\<close>
  for a trace since the last \<^verbatim>\<open>delete\<close> of that trace, in the order of the calls.
  \<open>log\<close> is the list collected before the events that remain.
\<close>

fun note_event :: "TraceID \<Rightarrow> 'p event \<Rightarrow> 'p world \<Rightarrow> 'p option list \<Rightarrow> 'p option list" where
  "note_event k (Append t a) w log = (if t = k then log @ [heap w ! a] else log)"
| "note_event k (Delete t) w log = (if t = k then [] else log)"
| "note_event k _ w log = log"

fun batches_since_delete ::
  "TraceID \<Rightarrow> 'p event list \<Rightarrow> 'p world \<Rightarrow> 'p option list \<Rightarrow> 'p option list" where
  "batches_since_delete k [] w log = log"
| "batches_since_delete k (e # es) w log =
     batches_since_delete k es (step e w) (note_event k e w log)"

text \<open>
  A world is sound when every entry of the map is a slice that is not nil and not
  empty, every stored address is allocated and not held by the caller, and every
  address the caller holds is allocated.
\<close>

definition sound :: "'p world \<Rightarrow> bool" where
  "sound w \<longleftrightarrow>
     (\<forall>k s. fmlookup (content (store w)) k = Some s \<longrightarrow>
        s \<noteq> NilSlice \<and> elems s \<noteq> [] \<and>
        (\<forall>a\<in>set (elems s). a < length (heap w) \<and> a \<notin> held w)) \<and>
     (\<forall>a\<in>held w. a < length (heap w))"

text \<open>The chains that have a measurement still to record before they next read the flag.\<close>

fun due :: "place \<Rightarrow> nat" where
  "due AtRecord = 1"
| "due Armed = 1"
| "due AtCheck = 0"
| "due Returned = 0"

definition waiting :: "'p world \<Rightarrow> nat" where
  "waiting w = sum_list (map due (timers w))"

definition starts :: "'p event list \<Rightarrow> nat" where
  "starts evs = length (filter (\<lambda>e. e = Start) evs)"

subsection \<open>A concrete history\<close>

text \<open>
  The scenario of the specification: the caller builds two batches, appends the first
  to trace \<open>aa11\<close>, overwrites it, appends the second to \<open>aa11\<close> and the
  overwritten first to \<open>bb22\<close>. The second history goes on with a \<^verbatim>\<open>get\<close> and a
  \<^verbatim>\<open>delete\<close> of \<open>aa11\<close>. The third is one chain of timers: armed when the
  storage is shut down, it fires, records and reads the flag; more events follow.
\<close>

definition aa11 :: TraceID where
  "aa11 = [0xaa, 0x11]"

definition bb22 :: TraceID where
  "bb22 = [0xbb, 0x22]"

definition scenario :: "nat event list" where
  "scenario = [NewBatch (Some 1), NewBatch (Some 2), Append aa11 0, Mutate 0 (Some 3),
               Append aa11 1, Append bb22 0]"

definition after_scenario :: "nat world" where
  "after_scenario =
     \<lparr>store = \<lparr>content = fmupd ''bb22'' (Slice [4]) (fmupd ''aa11'' (Slice [2, 3]) fmempty),
               stopped = False, metricsCollectionInterval = 1000000000\<rparr>,
      heap = [Some 3, Some 2, Some 1, Some 2, Some 3],
      held = {0, 1}, timers = [], recorded = []\<rparr>"

definition scenario_deleted :: "nat event list" where
  "scenario_deleted = scenario @ [Get aa11, Delete aa11]"

definition after_deleted :: "nat world" where
  "after_deleted =
     \<lparr>store = \<lparr>content = fmupd ''bb22'' (Slice [4]) fmempty,
               stopped = False, metricsCollectionInterval = 1000000000\<rparr>,
      heap = [Some 3, Some 2, Some 1, Some 2, Some 3, Some 1, Some 2, Some 1, Some 2],
      held = {0, 1, 5, 6, 7, 8}, timers = [], recorded = []\<rparr>"

definition armed_world :: "nat world" where
  "armed_world =
     \<lparr>store = newMemoryStorage, heap = [], held = {}, timers = [Armed], recorded = [0]\<rparr>"

definition observe_ticks :: "nat event list" where
  "observe_ticks = [Tick 0, Tick 0, Tick 0]"

definition returned_world :: "nat world" where
  "returned_world =
     \<lparr>store = newMemoryStorage\<lparr>stopped := True\<rparr>, heap = [], held = {},
      timers = [Returned], recorded = [0, 0]\<rparr>"

definition later_events :: "nat event list" where
  "later_events = [Tick 0, NewBatch (Some 1), Append aa11 0, Count, Tick 0]"

definition later_world :: "nat world" where
  "later_world =
     \<lparr>store = \<lparr>content = fmupd ''aa11'' (Slice [1]) fmempty, stopped = True,
               metricsCollectionInterval = 1000000000\<rparr>,
      heap = [Some 1, Some 1], held = {0}, timers = [Returned], recorded = [0, 0]\<rparr>"

section \<open>Hexadecimal keys\<close>

lemma hexdigit_inj: "n < 16 \<Longrightarrow> m < 16 \<Longrightarrow> hexdigit n = hexdigit m \<Longrightarrow> n = m"
  unfolding hexdigit_def
  by (subst (asm) nth_eq_iff_index_eq) simp_all

lemma hexbyte_inj:
  assumes "hexbyte a = hexbyte b"
  shows "a = b"
proof -
  have bound: "unat a < 256" "unat b < 256"
    using unsigned_less[of a, where 'a=nat] unsigned_less[of b, where 'a=nat] by auto
  then have hi: "unat a div 16 < 16" "unat b div 16 < 16" by auto
  have lo: "unat a mod 16 < 16" "unat b mod 16 < 16" by auto
  from assms have d: "hexdigit (unat a div 16) = hexdigit (unat b div 16)"
    and m: "hexdigit (unat a mod 16) = hexdigit (unat b mod 16)"
    by (simp_all add: hexbyte_def)
  have "unat a div 16 = unat b div 16" using hexdigit_inj[OF hi d] .
  moreover have "unat a mod 16 = unat b mod 16" using hexdigit_inj[OF lo m] .
  ultimately have "unat a = unat b"
    by (metis div_mult_mod_eq)
  then show ?thesis by (simp add: word_unat_eq_iff)
qed

lemma HexString_Cons: "HexString (b # bs) = hexbyte b @ HexString bs"
  by (simp add: HexString_def)

lemma HexString_inj: "HexString s = HexString t \<Longrightarrow> s = t"
proof (induction s arbitrary: t)
  case Nil
  then show ?case by (cases t) (simp_all add: HexString_def hexbyte_def)
next
  case (Cons a s)
  show ?case
  proof (cases t)
    case Nil
    with Cons.prems show ?thesis by (simp add: HexString_def hexbyte_def)
  next
    case (Cons b t')
    with Cons.prems have "hexbyte a @ HexString s = hexbyte b @ HexString t'"
      by (simp add: HexString_Cons)
    moreover have "length (hexbyte a) = length (hexbyte b)" by (simp add: hexbyte_def)
    ultimately have "hexbyte a = hexbyte b" "HexString s = HexString t'" by auto
    with Cons.IH Cons show ?thesis by (auto dest: hexbyte_inj)
  qed
qed

lemma HexString_eq_iff: "HexString s = HexString t \<longleftrightarrow> s = t"
  using HexString_inj by blast

lemma inj_HexString: "inj HexString"
  by (rule injI) (rule HexString_inj)

section \<open>The copying loop\<close>

lemma copy_each_shape:
  "\<exists>xs. snd (copy_each rss r h) = h @ xs \<and> length xs = length rss"
proof (induction rss arbitrary: r h)
  case Nil
  then show ?case by simp
next
  case (Cons a rss)
  let ?h2 = "CopyTo a (length h) (h @ [None])"
  have "?h2 = h @ [(h @ [None]) ! a]" by (simp add: CopyTo_def)
  moreover obtain xs where "snd (copy_each rss (append_slice r (length h)) ?h2) = ?h2 @ xs"
    "length xs = length rss" using Cons.IH by blast
  ultimately show ?case by (simp add: NewResourceSpans_def)
qed

lemma copy_each_result:
  "fst (copy_each rss r h) =
     (if rss = [] then r else Slice (elems r @ [length h ..< length h + length rss]))"
proof (induction rss arbitrary: r h)
  case Nil
  then show ?case by simp
next
  case (Cons a rss)
  have len: "length (CopyTo a (length h) (h @ [None])) = Suc (length h)"
    by (simp add: CopyTo_def)
  have "[length h..<length h + Suc (length rss)] =
          length h # [Suc (length h)..<Suc (length h) + length rss]"
    by (subst upt_rec) simp
  then show ?case using len
    by (cases "rss = []") (simp_all add: Cons.IH NewResourceSpans_def append_slice_def)
qed

lemma copy_each_heap:
  "\<forall>a\<in>set rss. a < length h \<Longrightarrow> snd (copy_each rss r h) = h @ map (nth h) rss"
proof (induction rss arbitrary: r h)
  case Nil
  then show ?case by simp
next
  case (Cons a rss)
  let ?h2 = "CopyTo a (length h) (h @ [None])"
  from Cons.prems have eq: "?h2 = h @ [h ! a]" by (simp add: CopyTo_def nth_append)
  from Cons.prems have "\<forall>b\<in>set rss. b < length ?h2" by (auto simp: eq)
  then have "snd (copy_each rss (append_slice r (length h)) ?h2) = ?h2 @ map (nth ?h2) rss"
    by (rule Cons.IH)
  moreover from Cons.prems have "map (nth ?h2) rss = map (nth h) rss"
    by (simp add: eq nth_append)
  ultimately show ?case by (simp add: NewResourceSpans_def eq)
qed

lemma copy_each_values:
  assumes "\<forall>a\<in>set rss. a < length h"
  shows "map (nth (snd (copy_each rss NilSlice h))) (elems (fst (copy_each rss NilSlice h)))
           = map (nth h) rss"
proof -
  have "map (nth (h @ map (nth h) rss)) [length h ..< length h + length rss] = map (nth h) rss"
    by (rule nth_equalityI) (simp_all add: nth_append)
  then show ?thesis
    using assms by (simp add: copy_each_heap copy_each_result)
qed

section \<open>The methods in closed form\<close>

lemma get_store: "fst (snd (get k st h)) = st"
  by (simp add: get_def Let_def split: option.split prod.split)

lemma get_error: "snd (fst (get k st h)) = None"
  by (simp add: get_def Let_def split: option.split prod.split)

lemma get_absent:
  "fmlookup (content st) (HexString k) = None \<Longrightarrow> get k st h = ((NilSlice, None), st, h)"
  by (simp add: get_def)

lemma get_present:
  "fmlookup (content st) (HexString k) = Some rss \<Longrightarrow>
     get k st h = ((fst (copy_each (elems rss) NilSlice h), None), st,
                   snd (copy_each (elems rss) NilSlice h))"
  by (simp add: get_def split: prod.split)

lemma get_heap: "\<exists>xs. snd (snd (get k st h)) = h @ xs"
proof (cases "fmlookup (content st) (HexString k)")
  case None
  then show ?thesis by (simp add: get_absent)
next
  case (Some rss)
  obtain xs where "snd (copy_each (elems rss) NilSlice h) = h @ xs"
    using copy_each_shape by blast
  with Some show ?thesis by (simp add: get_present)
qed

lemma delete_eq:
  "delete k st h =
     ((fst (copy_each (elems (index_map (content st) (HexString k))) NilSlice h), None),
      st\<lparr>content := fmdrop (HexString k) (content st)\<rparr>,
      snd (copy_each (elems (index_map (content st) (HexString k))) NilSlice h))"
  by (simp add: delete_def Let_def split: prod.split)

lemma createOrAppend_eq:
  "createOrAppend k rs st h =
     (None,
      st\<lparr>content := fmupd (HexString k)
             (Slice (elems (index_map (content st) (HexString k)) @ [length h])) (content st)\<rparr>,
      h @ [(h @ [None]) ! rs])"
  by (simp add: createOrAppend_def Let_def NewResourceSpans_def CopyTo_def index_map_def
      append_slice_def split: option.split)

lemma get_returned:
  assumes "\<forall>a\<in>set (elems (index_map (content st) (HexString k))). a < length h"
  shows "returned (get k st h) =
           (fmlookup (content st) (HexString k) = None \<or>
              elems (index_map (content st) (HexString k)) = [],
            stored_values st h k, None)"
proof (cases "fmlookup (content st) (HexString k)")
  case None
  then show ?thesis by (simp add: get_absent returned_def stored_values_def index_map_def)
next
  case (Some rss)
  with assms have "\<forall>a\<in>set (elems rss). a < length h" by (simp add: index_map_def)
  from copy_each_values[OF this] Some show ?thesis
    by (simp add: get_present returned_def stored_values_def index_map_def copy_each_result)
qed

lemma delete_returned:
  assumes "\<forall>a\<in>set (elems (index_map (content st) (HexString k))). a < length h"
  shows "returned (delete k st h) =
           (elems (index_map (content st) (HexString k)) = [], stored_values st h k, None)"
  using copy_each_values[OF assms]
  by (simp add: delete_eq returned_def stored_values_def copy_each_result)

section \<open>Every reachable world is sound\<close>

lemma step_Append_eq:
  "step (Append t a) w =
     w\<lparr>store := fst (snd (createOrAppend t a (store w) (heap w))),
       heap := snd (snd (createOrAppend t a (store w) (heap w)))\<rparr>"
  by (simp split: prod.split)

lemma step_Get_eq:
  "step (Get t) w =
     w\<lparr>store := store w, heap := snd (snd (get t (store w) (heap w))),
       held := held w \<union> set (elems (fst (fst (get t (store w) (heap w)))))\<rparr>"
  by (simp add: get_def Let_def split: option.split prod.split)

lemma step_Delete_eq:
  "step (Delete t) w =
     w\<lparr>store := (store w)\<lparr>content := fmdrop (HexString t) (content (store w))\<rparr>,
       heap := snd (snd (delete t (store w) (heap w))),
       held := held w \<union> set (elems (fst (fst (delete t (store w) (heap w)))))\<rparr>"
  by (simp add: delete_def Let_def split: prod.split)

lemma step_Count_eq: "step Count w = w"
  by (simp add: count_def)

lemma step_Start_eq: "step Start w = w\<lparr>timers := timers w @ [AtRecord]\<rparr>"
  by (simp add: start_def)

lemma step_Shutdown_eq: "step Shutdown w = w\<lparr>store := (store w)\<lparr>stopped := True\<rparr>\<rparr>"
  by (simp add: shutdown_def)

lemmas step_eqs = step.simps(1,2) step_Append_eq step_Get_eq step_Delete_eq step_Count_eq
  step_Start_eq step_Shutdown_eq step.simps(9)

declare step.simps [simp del]

lemma sound_newWorld: "sound newWorld"
  by (simp add: sound_def newWorld_def newMemoryStorage_def)

lemma soundD_entry:
  "sound w \<Longrightarrow> fmlookup (content (store w)) k = Some s \<Longrightarrow>
     s \<noteq> NilSlice \<and> elems s \<noteq> [] \<and> (\<forall>a\<in>set (elems s). a < length (heap w) \<and> a \<notin> held w)"
  unfolding sound_def by blast

lemma soundD_held: "sound w \<Longrightarrow> a \<in> held w \<Longrightarrow> a < length (heap w)"
  unfolding sound_def by blast

lemma sound_index:
  "sound w \<Longrightarrow> a \<in> set (elems (index_map (content (store w)) k)) \<Longrightarrow>
     a < length (heap w) \<and> a \<notin> held w"
  by (cases "fmlookup (content (store w)) k") (auto simp: index_map_def dest: soundD_entry)

lemma soundI:
  assumes "\<And>k s. fmlookup (content (store w)) k = Some s \<Longrightarrow>
             s \<noteq> NilSlice \<and> elems s \<noteq> [] \<and> (\<forall>a\<in>set (elems s). a < length (heap w) \<and> a \<notin> held w)"
    and "\<And>a. a \<in> held w \<Longrightarrow> a < length (heap w)"
  shows "sound w"
  using assms unfolding sound_def by blast

lemma sound_NewBatch: "sound w \<Longrightarrow> sound (step (NewBatch v) w)"
  by (rule soundI) (auto dest: soundD_entry soundD_held simp: less_Suc_eq step_eqs)

lemma sound_Mutate: "sound w \<Longrightarrow> sound (step (Mutate a v) w)"
  by (rule soundI) (auto dest: soundD_entry soundD_held simp: step_eqs)

lemma sound_Append:
  assumes "sound w"
  shows "sound (step (Append t a) w)"
proof (rule soundI)
  fix k s
  assume "fmlookup (content (store (step (Append t a) w))) k = Some s"
  then have s: "(k = HexString t \<and>
                  s = Slice (elems (index_map (content (store w)) (HexString t)) @ [length (heap w)]))
                \<or> fmlookup (content (store w)) k = Some s"
    by (auto simp: step_eqs createOrAppend_eq split: if_splits)
  have fresh: "length (heap w) \<notin> held w" using soundD_held[OF assms] by blast
  from s show "s \<noteq> NilSlice \<and> elems s \<noteq> [] \<and>
        (\<forall>b\<in>set (elems s). b < length (heap (step (Append t a) w)) \<and> b \<notin> held (step (Append t a) w))"
    using sound_index[OF assms] soundD_entry[OF assms] fresh
    by (auto simp: step_eqs createOrAppend_eq less_Suc_eq)
next
  fix b assume "b \<in> held (step (Append t a) w)"
  then show "b < length (heap (step (Append t a) w))"
    using soundD_held[OF assms] by (auto simp: step_eqs createOrAppend_eq less_Suc_eq)
qed

lemma copies_fresh:
  "a \<in> set (elems (fst (copy_each rss NilSlice h))) \<Longrightarrow>
     length h \<le> a \<and> a < length (snd (copy_each rss NilSlice h))"
  using copy_each_shape[of rss NilSlice h]
  by (auto simp: copy_each_result split: if_splits)

lemma copies_grow: "length h \<le> length (snd (copy_each rss r h))"
  using copy_each_shape[of rss r h] by auto

lemma get_fresh:
  "a \<in> set (elems (fst (fst (get t st h)))) \<Longrightarrow>
     length h \<le> a \<and> a < length (snd (snd (get t st h)))"
  by (cases "fmlookup (content st) (HexString t)")
     (auto simp: get_absent get_present dest: copies_fresh)

lemma get_grow: "length h \<le> length (snd (snd (get t st h)))"
  using get_heap[of t st h] by auto

lemma delete_fresh:
  "a \<in> set (elems (fst (fst (delete t st h)))) \<Longrightarrow>
     length h \<le> a \<and> a < length (snd (snd (delete t st h)))"
  by (auto simp: delete_eq dest: copies_fresh)

lemma delete_grow: "length h \<le> length (snd (snd (delete t st h)))"
  by (simp add: delete_eq copies_grow)

lemma sound_Get:
  assumes "sound w"
  shows "sound (step (Get t) w)"
proof (rule soundI)
  fix k s
  assume "fmlookup (content (store (step (Get t) w))) k = Some s"
  then have "fmlookup (content (store w)) k = Some s" by (simp add: step_Get_eq)
  from soundD_entry[OF assms this]
  show "s \<noteq> NilSlice \<and> elems s \<noteq> [] \<and>
        (\<forall>b\<in>set (elems s). b < length (heap (step (Get t) w)) \<and> b \<notin> held (step (Get t) w))"
    using get_grow[of "heap w" t "store w"] get_fresh[of _ t "store w" "heap w"]
    by (fastforce simp: step_Get_eq)
next
  fix b assume "b \<in> held (step (Get t) w)"
  then show "b < length (heap (step (Get t) w))"
    using soundD_held[OF assms] get_grow[of "heap w" t "store w"] get_fresh[of _ t "store w" "heap w"]
    by (fastforce simp: step_Get_eq)
qed

lemma sound_Delete:
  assumes "sound w"
  shows "sound (step (Delete t) w)"
proof (rule soundI)
  fix k s
  assume "fmlookup (content (store (step (Delete t) w))) k = Some s"
  then have "fmlookup (content (store w)) k = Some s"
    by (simp add: step_Delete_eq split: if_splits)
  from soundD_entry[OF assms this]
  show "s \<noteq> NilSlice \<and> elems s \<noteq> [] \<and>
        (\<forall>b\<in>set (elems s). b < length (heap (step (Delete t) w)) \<and> b \<notin> held (step (Delete t) w))"
    using delete_grow[of "heap w" t "store w"] delete_fresh[of _ t "store w" "heap w"]
    by (fastforce simp: step_Delete_eq)
next
  fix b assume "b \<in> held (step (Delete t) w)"
  then show "b < length (heap (step (Delete t) w))"
    using soundD_held[OF assms] delete_grow[of "heap w" t "store w"]
      delete_fresh[of _ t "store w" "heap w"]
    by (fastforce simp: step_Delete_eq)
qed

lemma periodicMetrics_data:
  "store (periodicMetrics i w) = store w \<and> heap (periodicMetrics i w) = heap w \<and>
   held (periodicMetrics i w) = held w"
  by (simp add: periodicMetrics_def count_def split: place.split)

lemma sound_cong:
  "content (store w') = content (store w) \<Longrightarrow> heap w' = heap w \<Longrightarrow> held w' = held w \<Longrightarrow> sound w \<Longrightarrow> sound w'"
  by (simp add: sound_def)

lemma sound_other:
  "sound w \<Longrightarrow> e = Count \<or> e = Start \<or> e = Shutdown \<or> e = Tick i \<Longrightarrow> sound (step e w)"
  using sound_cong[of "step e w" w] by (auto simp: step_eqs periodicMetrics_data)

lemma sound_step: "sound w \<Longrightarrow> sound (step e w)"
  by (cases e) (simp_all add: sound_NewBatch sound_Mutate sound_Append sound_Get sound_Delete
      sound_other)

lemma sound_run: "sound w \<Longrightarrow> run evs w = Some w' \<Longrightarrow> sound w'"
  by (induction evs arbitrary: w) (auto split: if_splits intro: sound_step)

lemma run_snoc:
  "run (es @ [e]) w =
     (case run es w of None \<Rightarrow> None
      | Some w1 \<Rightarrow> if legal e w1 then Some (step e w1) else None)"
  by (induction es arbitrary: w) simp_all

section \<open>The stored batches follow the history\<close>

lemma stored_values_step:
  assumes "sound w" and "legal e w"
  shows "stored_values (store (step e w)) (heap (step e w)) k
           = note_event k e w (stored_values (store w) (heap w) k)"
proof -
  let ?xs = "elems (index_map (content (store w)) (HexString k))"
  have old: "\<forall>a\<in>set ?xs. a < length (heap w) \<and> a \<notin> held w"
    using sound_index[OF assms(1)] by blast
  have ext: "\<And>ys. map (nth (heap w @ ys)) ?xs = map (nth (heap w)) ?xs"
    using old by (simp add: nth_append)
  show ?thesis
  proof (cases e)
    case (NewBatch v)
    then show ?thesis using ext by (simp add: step_eqs stored_values_def)
  next
    case (Mutate a v)
    with assms(2) have "a \<notin> set ?xs" using old by auto
    then have "map (nth ((heap w)[a := v])) ?xs = map (nth (heap w)) ?xs"
      by (metis (no_types, lifting) map_eq_conv nth_list_update_neq)
    with Mutate show ?thesis by (simp add: step_eqs stored_values_def)
  next
    case (Append t a)
    with assms have a: "a < length (heap w)" by (auto dest: soundD_held)
    show ?thesis
    proof (cases "t = k")
      case True
      with Append a ext[of "[heap w ! a]"] show ?thesis
        by (simp add: step_eqs createOrAppend_eq stored_values_def index_map_def nth_append)
    next
      case False
      then have "HexString t \<noteq> HexString k" by (simp add: HexString_eq_iff)
      with Append False ext[of "[(heap w @ [None]) ! a]"] show ?thesis
        by (simp add: step_eqs createOrAppend_eq stored_values_def index_map_def)
    qed
  next
    case (Get t)
    obtain ys where "snd (snd (get t (store w) (heap w))) = heap w @ ys"
      using get_heap by blast
    with Get ext[of ys] show ?thesis by (simp add: step_eqs stored_values_def)
  next
    case (Delete t)
    obtain ys where ys: "snd (snd (delete t (store w) (heap w))) = heap w @ ys"
      using copy_each_shape[of _ NilSlice "heap w"] by (auto simp: delete_eq)
    show ?thesis
    proof (cases "t = k")
      case True
      with Delete show ?thesis by (simp add: step_eqs stored_values_def index_map_def)
    next
      case False
      then have "HexString t \<noteq> HexString k" by (simp add: HexString_eq_iff)
      with Delete False ext[of ys] ys show ?thesis
        by (simp add: step_eqs stored_values_def index_map_def)
    qed
  next
    case Count
    then show ?thesis by (simp add: step_eqs)
  next
    case Start
    then show ?thesis by (simp add: step_eqs)
  next
    case Shutdown
    then show ?thesis by (simp add: step_eqs stored_values_def)
  next
    case (Tick i)
    then show ?thesis by (simp add: step_eqs periodicMetrics_data)
  qed
qed

lemma stored_values_run:
  "sound w \<Longrightarrow> run evs w = Some w' \<Longrightarrow>
     stored_values (store w') (heap w') k
       = batches_since_delete k evs w (stored_values (store w) (heap w) k)"
proof (induction evs arbitrary: w)
  case Nil
  then show ?case by simp
next
  case (Cons e evs)
  from Cons.prems have l: "legal e w" and r: "run evs (step e w) = Some w'"
    by (auto split: if_splits)
  from Cons.IH[OF sound_step[OF Cons.prems(1)] r] stored_values_step[OF Cons.prems(1) l]
  show ?case by simp
qed

lemma stored_values_newWorld: "stored_values (store newWorld) (heap newWorld) k = []"
  by (simp add: stored_values_def newWorld_def newMemoryStorage_def index_map_def)

lemma sound_reach: "run evs newWorld = Some w \<Longrightarrow> sound w"
  using sound_run[OF sound_newWorld] .

section \<open>The keys follow the history\<close>

lemma appended_since_delete_snoc:
  "appended_since_delete k (es @ [e]) =
     (if e = Delete k then False
      else if is_append k e then True
      else appended_since_delete k es)"
  by (induction es) (auto elim: is_append.elims)

lemma keys_step:
  "fmdom' (content (store (step e w))) =
     (case e of Append t a \<Rightarrow> insert (HexString t) (fmdom' (content (store w)))
      | Delete t \<Rightarrow> fmdom' (content (store w)) - {HexString t}
      | _ \<Rightarrow> fmdom' (content (store w)))"
  by (cases e) (simp_all add: step_eqs createOrAppend_eq periodicMetrics_data)

lemma keys_run:
  "run evs newWorld = Some w \<Longrightarrow>
     fmdom' (content (store w)) = HexString ` {k. appended_since_delete k evs}"
proof (induction evs arbitrary: w rule: rev_induct)
  case Nil
  then show ?case by (auto simp: newWorld_def newMemoryStorage_def)
next
  case (snoc e es)
  from snoc.prems obtain w1 where r: "run es newWorld = Some w1" and w: "w = step e w1"
    by (auto simp: run_snoc split: option.splits if_splits)
  note IH = snoc.IH[OF r]
  show ?case
  proof (cases e)
    case (Append t a)
    have "{k. appended_since_delete k (es @ [e])} = insert t {k. appended_since_delete k es}"
      using Append by (auto simp: appended_since_delete_snoc)
    then show ?thesis using Append IH by (simp add: w keys_step)
  next
    case (Delete t)
    have "{k. appended_since_delete k (es @ [e])} = {k. appended_since_delete k es} - {t}"
      using Delete by (auto simp: appended_since_delete_snoc)
    then show ?thesis using Delete IH
      by (simp add: w keys_step image_set_diff[OF inj_HexString])
  next
    case (NewBatch v)
    then show ?thesis using IH by (simp add: w keys_step appended_since_delete_snoc)
  next
    case (Mutate a v)
    then show ?thesis using IH by (simp add: w keys_step appended_since_delete_snoc)
  next
    case (Get t)
    then show ?thesis using IH by (simp add: w keys_step appended_since_delete_snoc)
  next
    case Count
    then show ?thesis using IH by (simp add: w keys_step appended_since_delete_snoc)
  next
    case Start
    then show ?thesis using IH by (simp add: w keys_step appended_since_delete_snoc)
  next
    case Shutdown
    then show ?thesis using IH by (simp add: w keys_step appended_since_delete_snoc)
  next
    case (Tick i)
    then show ?thesis using IH by (simp add: w keys_step appended_since_delete_snoc)
  qed
qed

lemma present_iff:
  assumes "run evs newWorld = Some w"
  shows "fmlookup (content (store w)) (HexString k) \<noteq> None \<longleftrightarrow> appended_since_delete k evs"
proof -
  have "fmlookup (content (store w)) (HexString k) \<noteq> None
          \<longleftrightarrow> HexString k \<in> fmdom' (content (store w))"
    by (simp add: fmlookup_dom'_iff)
  also have "\<dots> \<longleftrightarrow> HexString k \<in> HexString ` {k. appended_since_delete k evs}"
    by (simp add: keys_run[OF assms])
  also have "\<dots> \<longleftrightarrow> appended_since_delete k evs"
    by (auto simp: HexString_eq_iff)
  finally show ?thesis .
qed

section \<open>Writes of the caller do not reach the storage\<close>

lemma mutate_held_unseen:
  assumes "sound w" and "a \<in> held w"
  shows "answers (store w) ((heap w)[a := v]) k = answers (store w) (heap w) k"
proof -
  let ?xs = "elems (index_map (content (store w)) (HexString k))"
  have old: "\<forall>b\<in>set ?xs. b < length (heap w) \<and> b \<notin> held w"
    using sound_index[OF assms(1)] by blast
  then have b1: "\<forall>b\<in>set ?xs. b < length (heap w)"
    and b2: "\<forall>b\<in>set ?xs. b < length ((heap w)[a := v])" by simp_all
  from old assms(2) have "a \<notin> set ?xs" by auto
  then have "map (nth ((heap w)[a := v])) ?xs = map (nth (heap w)) ?xs"
    by (metis (no_types, lifting) map_eq_conv nth_list_update_neq)
  then have "stored_values (store w) ((heap w)[a := v]) k = stored_values (store w) (heap w) k"
    by (simp add: stored_values_def)
  then show ?thesis
    by (simp add: answers_def get_returned[OF b1] get_returned[OF b2]
        delete_returned[OF b1] delete_returned[OF b2])
qed

section \<open>The chains of timers\<close>

lemma stopped_step: "stopped (store w) \<Longrightarrow> stopped (store (step e w))"
  by (cases e) (simp_all add: step_eqs createOrAppend_eq periodicMetrics_data)

lemma stopped_run: "stopped (store w) \<Longrightarrow> run evs w = Some w' \<Longrightarrow> stopped (store w')"
  by (induction evs arbitrary: w) (auto split: if_splits intro: stopped_step)

lemma timers_data:
  "e \<noteq> Start \<Longrightarrow> (\<forall>i. e \<noteq> Tick i) \<Longrightarrow>
     timers (step e w) = timers w \<and> recorded (step e w) = recorded w"
  by (cases e) (simp_all add: step_eqs)

lemma returned_step:
  "i < length (timers w) \<Longrightarrow> timers w ! i = Returned \<Longrightarrow>
     i < length (timers (step e w)) \<and> timers (step e w) ! i = Returned"
proof (cases e)
  case (Tick j)
  assume "i < length (timers w)" "timers w ! i = Returned"
  then show ?thesis using Tick
    by (cases "j = i") (auto simp: step_eqs periodicMetrics_def count_def split: place.split)
qed (simp_all add: step_eqs nth_append)

lemma returned_run:
  "i < length (timers w) \<Longrightarrow> timers w ! i = Returned \<Longrightarrow> run evs w = Some w' \<Longrightarrow>
     i < length (timers w') \<and> timers w' ! i = Returned"
proof (induction evs arbitrary: w)
  case Nil
  then show ?case by simp
next
  case (Cons e evs)
  from Cons.prems(3) have r: "run evs (step e w) = Some w'" by (simp split: if_splits)
  from returned_step[OF Cons.prems(1,2), of e] Cons.IH[OF _ _ r] show ?case by blast
qed

lemma sum_due_update:
  "i < length ps \<Longrightarrow>
     sum_list (map due (ps[i := p])) + due (ps ! i) = sum_list (map due ps) + due p"
proof (induction ps arbitrary: i)
  case Nil
  then show ?case by simp
next
  case (Cons x xs)
  show ?case
  proof (cases i)
    case 0
    then show ?thesis by simp
  next
    case (Suc j)
    with Cons.prems have "j < length xs" by simp
    from Cons.IH[OF this] Suc show ?thesis by simp
  qed
qed

lemma recorded_step:
  assumes "stopped (store w)" and "legal e w"
  shows "\<exists>xs. recorded (step e w) = recorded w @ xs \<and>
           length xs + waiting (step e w) \<le> waiting w + (if e = Start then 1 else 0)"
proof (cases e)
  case (Tick i)
  with assms(2) have i: "i < length (timers w)" by simp
  show ?thesis
  proof (cases "timers w ! i")
    case AtRecord
    with sum_due_update[OF i, of AtCheck] have "waiting (step e w) + 1 = waiting w"
      by (simp add: Tick step_eqs periodicMetrics_def count_def waiting_def)
    moreover have "recorded (step e w) = recorded w @ [fst (count (store w))]"
      using AtRecord by (simp add: Tick step_eqs periodicMetrics_def count_def)
    ultimately show ?thesis using Tick by simp
  next
    case AtCheck
    with sum_due_update[OF i, of Returned] assms(1) show ?thesis
      by (simp add: Tick step_eqs periodicMetrics_def waiting_def)
  next
    case Armed
    with sum_due_update[OF i, of AtRecord] show ?thesis
      by (simp add: Tick step_eqs periodicMetrics_def waiting_def)
  next
    case Returned
    then show ?thesis by (simp add: Tick step_eqs periodicMetrics_def)
  qed
qed (simp_all add: step_eqs waiting_def)

lemma starts_Cons: "starts (e # es) = (if e = Start then 1 else 0) + starts es"
  by (simp add: starts_def)

lemma recorded_run:
  "stopped (store w) \<Longrightarrow> run evs w = Some w' \<Longrightarrow>
     \<exists>xs. recorded w' = recorded w @ xs \<and> length xs + waiting w' \<le> waiting w + starts evs"
proof (induction evs arbitrary: w)
  case Nil
  then show ?case by (simp add: starts_def)
next
  case (Cons e evs)
  from Cons.prems(2) have l: "legal e w" and r: "run evs (step e w) = Some w'"
    by (auto split: if_splits)
  obtain xs where xs: "recorded (step e w) = recorded w @ xs"
    "length xs + waiting (step e w) \<le> waiting w + (if e = Start then 1 else 0)"
    using recorded_step[OF Cons.prems(1) l] by blast
  obtain ys where ys: "recorded w' = recorded (step e w) @ ys"
    "length ys + waiting w' \<le> waiting (step e w) + starts evs"
    using Cons.IH[OF stopped_step[OF Cons.prems(1)] r] by blast
  have "recorded w' = recorded w @ (xs @ ys)" using xs(1) ys(1) by simp
  moreover have "length (xs @ ys) + waiting w' \<le> waiting w + starts (e # evs)"
    using xs(2) ys(2) by (simp add: starts_Cons)
  ultimately show ?case by blast
qed

lemma check_returns:
  "stopped (store w) \<Longrightarrow> i < length (timers w) \<Longrightarrow> timers w ! i = AtCheck \<Longrightarrow>
     timers (step (Tick i) w) ! i = Returned"
  by (simp add: step_eqs periodicMetrics_def)

section \<open>The concrete histories, evaluated\<close>

lemmas run_defs = step.simps createOrAppend_def get_def delete_def count_def shutdown_def
  start_def periodicMetrics_def NewResourceSpans_def CopyTo_def index_map_def append_slice_def
  newWorld_def newMemoryStorage_def Let_def

lemma HexString_aa11: "HexString aa11 = ''aa11''"
  by (simp add: aa11_def HexString_def hexbyte_def hexdigit_def)

lemma HexString_bb22: "HexString bb22 = ''bb22''"
  by (simp add: bb22_def HexString_def hexbyte_def hexdigit_def)

lemma aa11_neq_bb22: "aa11 \<noteq> bb22"
  by (simp add: aa11_def bb22_def)

lemma run_scenario: "run scenario newWorld = Some after_scenario"
  by (auto simp: scenario_def after_scenario_def run_defs HexString_aa11 HexString_bb22
      eval_nat_numeral)

lemma get_after_scenario:
  "get aa11 (store after_scenario) (heap after_scenario) =
     ((Slice [5, 6], None), store after_scenario, heap after_scenario @ [Some 1, Some 2])"
  by (simp add: after_scenario_def run_defs HexString_aa11 eval_nat_numeral)

lemma delete_after_scenario:
  "delete aa11 (store after_scenario) (heap after_scenario) =
     ((Slice [5, 6], None),
      (store after_scenario)\<lparr>content := fmupd ''bb22'' (Slice [4]) fmempty\<rparr>,
      heap after_scenario @ [Some 1, Some 2])"
  by (simp add: after_scenario_def run_defs HexString_aa11 eval_nat_numeral fmdrop_fmupd)

lemma run_append: "run es1 w = Some w1 \<Longrightarrow> run (es1 @ es2) w = run es2 w1"
  by (induction es1 arbitrary: w) (auto split: if_splits)

lemma run_scenario_deleted: "run scenario_deleted newWorld = Some after_deleted"
proof -
  have "run [Get aa11, Delete aa11] after_scenario = Some after_deleted"
    by (auto simp: after_scenario_def after_deleted_def run_defs HexString_aa11
        eval_nat_numeral fmdrop_fmupd)
  then show ?thesis using run_append[OF run_scenario] by (simp add: scenario_deleted_def)
qed

lemma run_to_armed_world: "run [Start, Tick 0, Tick 0] newWorld = Some armed_world"
  by (simp add: armed_world_def run_defs)

lemma run_observe_ticks:
  "run observe_ticks (step Shutdown armed_world) = Some returned_world"
  by (simp add: observe_ticks_def armed_world_def returned_world_def run_defs)

lemma run_later_events: "run later_events returned_world = Some later_world"
  by (simp add: later_events_def returned_world_def later_world_def run_defs HexString_aa11)

lemma run_two_ticks:
  "run [Tick 0, Tick 0] (step Shutdown armed_world) =
     Some (armed_world\<lparr>store := newMemoryStorage\<lparr>stopped := True\<rparr>,
             timers := [AtCheck], recorded := [0, 0]\<rparr>)"
  by (simp add: armed_world_def run_defs)

text \<open>
  C1. In every world reached from a new storage, \<^verbatim>\<open>get\<close> of a trace returns no error
  and a sequence whose batches have, in order, the contents of the batches given to
  \<^verbatim>\<open>createOrAppend\<close> for that trace since its last \<^verbatim>\<open>delete\<close>, as they were at
  the time of each call. With no delete of the trace in the history these are all the
  batches appended to it, in the order of the appends.
\<close>

theorem get_returns_appended_batches_in_order:
  assumes "run evs newWorld = Some w"
    and "get k (store w) (heap w) = ((res, err), st1, h1)"
  shows "err = None \<and> map (nth h1) (elems res) = batches_since_delete k evs newWorld []"
proof -
  have s: "sound w" using assms(1) by (rule sound_reach)
  then have "\<forall>a\<in>set (elems (index_map (content (store w)) (HexString k))). a < length (heap w)"
    using sound_index by blast
  from get_returned[OF this] assms(2)
  have "err = None" "map (nth h1) (elems res) = stored_values (store w) (heap w) k"
    by (simp_all add: returned_def)
  moreover have "stored_values (store w) (heap w) k = batches_since_delete k evs newWorld []"
    using stored_values_run[OF sound_newWorld assms(1), of k] by (simp add: stored_values_newWorld)
  ultimately show ?thesis by simp
qed

theorem get_returns_appended_batches_in_order_witness:
  "run scenario newWorld = Some after_scenario
   \<and> get aa11 (store after_scenario) (heap after_scenario) =
       ((Slice [5, 6], None), store after_scenario, heap after_scenario @ [Some 1, Some 2])
   \<and> map (nth (heap after_scenario @ [Some 1, Some 2])) (elems (Slice [5, 6]))
       = batches_since_delete aa11 scenario newWorld []
   \<and> batches_since_delete aa11 scenario newWorld [] = [Some 1, Some 2]"
proof -
  note inst = get_returns_appended_batches_in_order[OF run_scenario get_after_scenario]
  have "map (nth (heap after_scenario @ [Some 1, Some 2])) (elems (Slice [5, 6]))
          = [Some 1, Some (2::nat)]"
    by (simp add: after_scenario_def eval_nat_numeral)
  with inst run_scenario get_after_scenario show ?thesis by simp
qed

text \<open>
  C2. For every storage, heap and trace: a \<^verbatim>\<open>get\<close> right after \<^verbatim>\<open>delete\<close> of the
  same trace returns the absent result, the nil slice with no error; and when the trace
  has no entry, \<^verbatim>\<open>delete\<close> returns a slice without elements and no error, and leaves
  the storage and the heap as they were.
\<close>

theorem delete_then_get_absent:
  "fst (get k (fst (snd (delete k st h))) (snd (snd (delete k st h)))) = (NilSlice, None)
   \<and> (fmlookup (content st) (HexString k) = None \<longrightarrow>
        delete k st h = ((NilSlice, None), st, h) \<and> elems (fst (fst (delete k st h))) = [])"
proof -
  have "fmlookup (content st) (HexString k) = None \<Longrightarrow>
          st\<lparr>content := fmdrop (HexString k) (content st)\<rparr> = st"
    by (simp add: fmdrop_idle' fmdom'_notI)
  then show ?thesis
    by (auto simp: delete_eq get_absent index_map_def)
qed

lemma absent_after_deleted:
  "fmlookup (content (store after_deleted)) (HexString aa11) = None"
  by (simp add: after_deleted_def HexString_aa11)

theorem delete_then_get_absent_witness:
  "fmlookup (content (store after_deleted)) (HexString aa11) = None
   \<and> delete aa11 (store after_deleted) (heap after_deleted) =
       ((NilSlice, None), store after_deleted, heap after_deleted)
   \<and> elems (fst (fst (delete aa11 (store after_deleted) (heap after_deleted)))) = []
   \<and> fst (get aa11 (fst (snd (delete aa11 (store after_scenario) (heap after_scenario))))
               (snd (snd (delete aa11 (store after_scenario) (heap after_scenario)))))
       = (NilSlice, None)"
  using delete_then_get_absent[of aa11 "store after_deleted" "heap after_deleted"]
    delete_then_get_absent[of aa11 "store after_scenario" "heap after_scenario"]
    absent_after_deleted
  by simp

text \<open>
  C3. In every world reached from a new storage, \<^verbatim>\<open>get\<close> of a trace that has had no
  append since its last delete (none at all, or a delete after the last one) returns the
  absent result, the nil slice with no error, and changes nothing. A trace that has had
  one never gets the nil slice, and \<^verbatim>\<open>get\<close> never returns an error. The absent result
  differs from an empty slice that is not nil and from every result with an error.
\<close>

theorem get_absent_without_append:
  assumes "run evs newWorld = Some w"
  shows "(\<not> appended_since_delete k evs \<longrightarrow>
            get k (store w) (heap w) = ((NilSlice, None), store w, heap w))
       \<and> (appended_since_delete k evs \<longrightarrow>
            fst (fst (get k (store w) (heap w))) \<noteq> NilSlice)
       \<and> snd (fst (get k (store w) (heap w))) = None
       \<and> (NilSlice, None) \<noteq> (Slice ([] :: addr list), None :: error)
       \<and> (NilSlice :: addr slice, None) \<noteq> (r, Some msg)"
proof -
  have a: "\<not> appended_since_delete k evs \<longrightarrow>
            get k (store w) (heap w) = ((NilSlice, None), store w, heap w)"
    using present_iff[OF assms, of k] by (auto simp: get_absent)
  have b: "appended_since_delete k evs \<longrightarrow> fst (fst (get k (store w) (heap w))) \<noteq> NilSlice"
  proof
    assume "appended_since_delete k evs"
    then obtain s where s: "fmlookup (content (store w)) (HexString k) = Some s"
      using present_iff[OF assms, of k] by auto
    with soundD_entry[OF sound_reach[OF assms] s] show
      "fst (fst (get k (store w) (heap w))) \<noteq> NilSlice"
      by (simp add: get_present copy_each_result)
  qed
  from a b show ?thesis by (simp add: get_error)
qed

lemma history_deleted:
  "\<not> appended_since_delete aa11 scenario_deleted \<and> appended_since_delete bb22 scenario_deleted"
  by (simp add: scenario_deleted_def scenario_def aa11_def bb22_def)

theorem get_absent_without_append_witness:
  "run scenario_deleted newWorld = Some after_deleted
   \<and> \<not> appended_since_delete aa11 scenario_deleted
   \<and> get aa11 (store after_deleted) (heap after_deleted) =
       ((NilSlice, None), store after_deleted, heap after_deleted)
   \<and> appended_since_delete bb22 scenario_deleted
   \<and> fst (fst (get bb22 (store after_deleted) (heap after_deleted))) \<noteq> NilSlice"
  using get_absent_without_append[OF run_scenario_deleted, of aa11]
    get_absent_without_append[OF run_scenario_deleted, of bb22]
    run_scenario_deleted history_deleted
  by simp

text \<open>
  C4. In every world reached from a new storage by any history of events (appends, gets,
  deletes, counts, and also writes of the caller, starts, shutdowns and timer steps),
  \<^verbatim>\<open>count\<close> returns the number of distinct trace identifiers that have had an append
  since their last delete.
\<close>

theorem count_is_number_of_live_traces:
  assumes "run evs newWorld = Some w"
  shows "fst (count (store w)) = int (card {k. appended_since_delete k evs})"
proof -
  have "fcard (fmdom (content (store w))) = card (fmdom' (content (store w)))"
    by (simp add: fcard.rep_eq fmdom'_alt_def)
  also have "\<dots> = card (HexString ` {k. appended_since_delete k evs})"
    by (simp add: keys_run[OF assms])
  also have "\<dots> = card {k. appended_since_delete k evs}"
    by (rule card_image) (rule inj_on_subset[OF inj_HexString subset_UNIV])
  finally show ?thesis by (simp add: count_def)
qed

lemma count_after_scenario: "fst (count (store after_scenario)) = 2"
  by (simp add: after_scenario_def count_def fcard_finsert_if)

lemma count_after_deleted: "fst (count (store after_deleted)) = 1"
  by (simp add: after_deleted_def count_def fcard_finsert_if)

theorem count_is_number_of_live_traces_witness:
  "run scenario newWorld = Some after_scenario
   \<and> fst (count (store after_scenario)) = 2
   \<and> card {k. appended_since_delete k scenario} = 2
   \<and> run scenario_deleted newWorld = Some after_deleted
   \<and> fst (count (store after_deleted)) = 1
   \<and> card {k. appended_since_delete k scenario_deleted} = 1"
  using count_is_number_of_live_traces[OF run_scenario]
    count_is_number_of_live_traces[OF run_scenario_deleted]
    run_scenario run_scenario_deleted count_after_scenario count_after_deleted
  by simp

text \<open>
  C5. In every world reached from a new storage: overwriting a batch that \<^verbatim>\<open>get\<close> or
  \<^verbatim>\<open>delete\<close> has just returned changes nothing of what a following \<^verbatim>\<open>get\<close> or
  \<^verbatim>\<open>delete\<close> of any trace returns, and overwriting the caller's batch after it was
  given to \<^verbatim>\<open>createOrAppend\<close> changes nothing of it either.
\<close>

theorem returned_and_stored_batches_are_independent:
  assumes "run evs newWorld = Some w"
    and "get k (store w) (heap w) = ((res1, err1), st1, h1)"
    and "delete k (store w) (heap w) = ((res2, err2), st2, h2)"
    and "createOrAppend k b (store w) (heap w) = (err3, st3, h3)"
  shows "(a \<in> set (elems res1) \<longrightarrow> answers st1 (h1[a := v]) k' = answers st1 h1 k')
       \<and> (a \<in> set (elems res2) \<longrightarrow> answers st2 (h2[a := v]) k' = answers st2 h2 k')
       \<and> (b \<in> held w \<longrightarrow> answers st3 (h3[b := v]) k' = answers st3 h3 k')"
proof -
  note s = sound_reach[OF assms(1)]
  have g: "a \<in> set (elems res1) \<longrightarrow> answers st1 (h1[a := v]) k' = answers st1 h1 k'"
  proof
    assume a: "a \<in> set (elems res1)"
    let ?w = "step (Get k) w"
    have "store ?w = st1" "heap ?w = h1" "a \<in> held ?w"
      using assms(2) a get_store[of k "store w" "heap w"] by (simp_all add: step_eqs)
    with mutate_held_unseen[OF sound_step[OF s], of a "Get k" v k']
    show "answers st1 (h1[a := v]) k' = answers st1 h1 k'" by simp
  qed
  have d: "a \<in> set (elems res2) \<longrightarrow> answers st2 (h2[a := v]) k' = answers st2 h2 k'"
  proof
    assume a: "a \<in> set (elems res2)"
    let ?w = "step (Delete k) w"
    have "store ?w = st2" "heap ?w = h2" "a \<in> held ?w"
      using assms(3) a by (simp_all add: step_eqs delete_eq)
    with mutate_held_unseen[OF sound_step[OF s], of a "Delete k" v k']
    show "answers st2 (h2[a := v]) k' = answers st2 h2 k'" by simp
  qed
  have c: "b \<in> held w \<longrightarrow> answers st3 (h3[b := v]) k' = answers st3 h3 k'"
  proof
    assume b: "b \<in> held w"
    let ?w = "step (Append k b) w"
    have "store ?w = st3" "heap ?w = h3" "b \<in> held ?w"
      using assms(4) b by (simp_all add: step_eqs)
    with mutate_held_unseen[OF sound_step[OF s], of b "Append k b" v k']
    show "answers st3 (h3[b := v]) k' = answers st3 h3 k'" by simp
  qed
  from g d c show ?thesis by blast
qed

lemma append_after_scenario:
  "createOrAppend aa11 0 (store after_scenario) (heap after_scenario) =
     (None,
      (store after_scenario)\<lparr>content :=
         fmupd ''aa11'' (Slice [2, 3, 5]) (content (store after_scenario))\<rparr>,
      heap after_scenario @ [Some 3])"
  by (simp add: after_scenario_def createOrAppend_eq HexString_aa11 index_map_def
      eval_nat_numeral)

lemma answers_after_get:
  "answers (store after_scenario) (heap after_scenario @ [Some 1, Some 2]) aa11 =
     ((False, [Some 1, Some 2], None), (False, [Some 1, Some 2], None))"
  by (simp add: answers_def returned_def after_scenario_def run_defs HexString_aa11
      eval_nat_numeral)

theorem returned_and_stored_batches_are_independent_witness:
  "run scenario newWorld = Some after_scenario
   \<and> 5 \<in> set (elems (Slice [5, 6 :: nat]))
   \<and> 0 \<in> held after_scenario
   \<and> answers (store after_scenario) ((heap after_scenario @ [Some 1, Some 2])[5 := Some 99]) aa11
       = ((False, [Some 1, Some 2], None), (False, [Some 1, Some 2], None))
   \<and> answers ((store after_scenario)\<lparr>content := fmupd ''bb22'' (Slice [4]) fmempty\<rparr>)
         ((heap after_scenario @ [Some 1, Some 2])[5 := Some 99]) bb22
       = answers ((store after_scenario)\<lparr>content := fmupd ''bb22'' (Slice [4]) fmempty\<rparr>)
           (heap after_scenario @ [Some 1, Some 2]) bb22
   \<and> answers ((store after_scenario)\<lparr>content :=
                 fmupd ''aa11'' (Slice [2, 3, 5]) (content (store after_scenario))\<rparr>)
         ((heap after_scenario @ [Some 3])[0 := Some 99]) aa11
       = answers ((store after_scenario)\<lparr>content :=
                    fmupd ''aa11'' (Slice [2, 3, 5]) (content (store after_scenario))\<rparr>)
           (heap after_scenario @ [Some 3]) aa11"
proof -
  have m: "5 \<in> set (elems (Slice [5, 6 :: nat]))" by simp
  have b: "0 \<in> held after_scenario" by (simp add: after_scenario_def)
  note inst = returned_and_stored_batches_are_independent[OF run_scenario get_after_scenario
      delete_after_scenario append_after_scenario, of 5 "Some 99"]
  from inst[of aa11] m answers_after_get
  have 1: "answers (store after_scenario)
             ((heap after_scenario @ [Some 1, Some 2])[5 := Some 99]) aa11
           = ((False, [Some 1, Some 2], None), (False, [Some 1, Some 2], None))" by simp
  from inst[of bb22] m
  have 2: "answers ((store after_scenario)\<lparr>content := fmupd ''bb22'' (Slice [4]) fmempty\<rparr>)
             ((heap after_scenario @ [Some 1, Some 2])[5 := Some 99]) bb22
           = answers ((store after_scenario)\<lparr>content := fmupd ''bb22'' (Slice [4]) fmempty\<rparr>)
               (heap after_scenario @ [Some 1, Some 2]) bb22" by simp
  from inst[of aa11] b
  have 3: "answers ((store after_scenario)\<lparr>content :=
                 fmupd ''aa11'' (Slice [2, 3, 5]) (content (store after_scenario))\<rparr>)
             ((heap after_scenario @ [Some 3])[0 := Some 99]) aa11
           = answers ((store after_scenario)\<lparr>content :=
                    fmupd ''aa11'' (Slice [2, 3, 5]) (content (store after_scenario))\<rparr>)
               (heap after_scenario @ [Some 3]) aa11" by simp
  from run_scenario m b 1 2 3 show ?thesis by blast
qed

text \<open>
  C6. \<^verbatim>\<open>createOrAppend\<close>, \<^verbatim>\<open>start\<close> and \<^verbatim>\<open>shutdown\<close> return the nil error for every
  input and every state.
\<close>

theorem in_memory_methods_never_fail:
  "fst (createOrAppend k rs st h) = None \<and> fst (start w) = None \<and> fst (shutdown st) = None"
  by (simp add: createOrAppend_eq start_def shutdown_def)

text \<open>
  C9. \<^verbatim>\<open>get\<close> and \<^verbatim>\<open>count\<close> return the storage they were given: the map, the stopped
  flag and the interval are unchanged. \<^verbatim>\<open>get\<close> only allocates: every object that
  existed before the call is unchanged after it.
\<close>

theorem get_and_count_are_reads:
  "fst (snd (get k st h)) = st
   \<and> take (length h) (snd (snd (get k st h))) = h
   \<and> snd (count st) = st"
proof -
  obtain xs where "snd (snd (get k st h)) = h @ xs" using get_heap by blast
  then show ?thesis by (simp add: get_store count_def)
qed

text \<open>
  C10. In every world reached from a new storage, every entry of the map is a slice that
  is not nil and has at least one element, and \<^verbatim>\<open>get\<close> of a trace that has an entry
  returns a sequence that is not empty.
\<close>

theorem stored_entries_never_empty:
  assumes "run evs newWorld = Some w"
  shows "(fmlookup (content (store w)) s = Some sl \<longrightarrow> sl \<noteq> NilSlice \<and> elems sl \<noteq> [])
       \<and> (fmlookup (content (store w)) (HexString k) \<noteq> None \<longrightarrow>
            elems (fst (fst (get k (store w) (heap w)))) \<noteq> [])"
proof -
  note snd = sound_reach[OF assms]
  have "fmlookup (content (store w)) (HexString k) \<noteq> None \<longrightarrow>
            elems (fst (fst (get k (store w) (heap w)))) \<noteq> []"
  proof
    assume "fmlookup (content (store w)) (HexString k) \<noteq> None"
    then obtain s where s: "fmlookup (content (store w)) (HexString k) = Some s" by auto
    with soundD_entry[OF snd s]
    show "elems (fst (fst (get k (store w) (heap w)))) \<noteq> []"
      by (simp add: get_present copy_each_result)
  qed
  then show ?thesis using soundD_entry[OF snd] by blast
qed

lemma entry_after_scenario:
  "fmlookup (content (store after_scenario)) ''aa11'' = Some (Slice [2, 3])"
  by (simp add: after_scenario_def)

theorem stored_entries_never_empty_witness:
  "run scenario newWorld = Some after_scenario
   \<and> fmlookup (content (store after_scenario)) ''aa11'' = Some (Slice [2, 3])
   \<and> Slice [2, 3 :: nat] \<noteq> NilSlice \<and> elems (Slice [2, 3 :: nat]) \<noteq> []
   \<and> fmlookup (content (store after_scenario)) (HexString aa11) \<noteq> None
   \<and> elems (fst (fst (get aa11 (store after_scenario) (heap after_scenario)))) \<noteq> []"
  using stored_entries_never_empty[OF run_scenario, of "''aa11''" "Slice [2, 3]" aa11]
    run_scenario entry_after_scenario
  by (simp add: HexString_aa11)

lemma stored_values_frame:
  assumes "fmlookup (content st') (HexString t) = fmlookup (content st) (HexString t)"
    and "\<forall>a\<in>set (elems (index_map (content st) (HexString t))). a < length h"
  shows "stored_values st' (h @ xs) t = stored_values st h t"
  using assms by (simp add: stored_values_def index_map_def nth_append)

text \<open>
  C7. Take any world reached after \<^verbatim>\<open>shutdown\<close>, and any world reached from that
  one. The stopped flag is set in both. A chain about to read the flag returns at its
  next step instead of arming a timer. A chain that has returned is still returned
  later. The measurements recorded between the two worlds are at most one for each
  chain that was armed or about to record in the first, and one for each call of
  \<^verbatim>\<open>start\<close> in between: once a chain has read the flag it records nothing more.
  The period of the timer is not modelled: a chain moves by steps, in any interleaving
  with the calls of the methods.
\<close>

theorem sampling_stops_after_shutdown:
  assumes "run evs1 (step Shutdown w) = Some w1"
    and "run evs2 w1 = Some w2"
  shows "stopped (store w1) \<and> stopped (store w2)
       \<and> (\<forall>i<length (timers w1). timers w1 ! i = AtCheck \<longrightarrow>
             timers (step (Tick i) w1) ! i = Returned)
       \<and> (\<forall>i<length (timers w1). timers w1 ! i = Returned \<longrightarrow>
             i < length (timers w2) \<and> timers w2 ! i = Returned)
       \<and> (\<exists>xs. recorded w2 = recorded w1 @ xs \<and>
             length xs + waiting w2 \<le> waiting w1 + starts evs2)"
proof -
  have "stopped (store (step Shutdown w))" by (simp add: step_eqs)
  then have s1: "stopped (store w1)" using assms(1) by (rule stopped_run)
  then have s2: "stopped (store w2)" using assms(2) by (rule stopped_run)
  have a: "\<forall>i<length (timers w1). timers w1 ! i = AtCheck \<longrightarrow>
             timers (step (Tick i) w1) ! i = Returned"
    using check_returns[OF s1] by blast
  have b: "\<forall>i<length (timers w1). timers w1 ! i = Returned \<longrightarrow>
             i < length (timers w2) \<and> timers w2 ! i = Returned"
    using returned_run[of _ w1 evs2 w2, OF _ _ assms(2)] by blast
  have c: "\<exists>xs. recorded w2 = recorded w1 @ xs \<and>
             length xs + waiting w2 \<le> waiting w1 + starts evs2"
    using recorded_run[OF s1 assms(2)] .
  from s1 s2 a b c show ?thesis by blast
qed

theorem sampling_stops_after_shutdown_witness:
  "run observe_ticks (step Shutdown armed_world) = Some returned_world
   \<and> run later_events returned_world = Some later_world
   \<and> stopped (store returned_world) \<and> stopped (store later_world)
   \<and> timers returned_world ! 0 = Returned
   \<and> timers later_world ! 0 = Returned
   \<and> recorded later_world = recorded returned_world
   \<and> timers (step (Tick 0) (armed_world\<lparr>store := newMemoryStorage\<lparr>stopped := True\<rparr>,
                               timers := [AtCheck], recorded := [0, 0]\<rparr>)) ! 0 = Returned"
proof -
  note inst = sampling_stops_after_shutdown[OF run_observe_ticks run_later_events]
  have 1: "stopped (store returned_world)" "stopped (store later_world)"
    using inst by blast+
  have 2: "timers returned_world ! 0 = Returned" by (simp add: returned_world_def)
  have 3: "timers later_world ! 0 = Returned"
    using inst 2 by (simp add: returned_world_def)
  have w: "waiting returned_world = 0" "starts later_events = 0"
    by (simp_all add: waiting_def returned_world_def starts_def later_events_def)
  have 4: "recorded later_world = recorded returned_world"
    using inst w by auto
  have 5: "timers (step (Tick 0) (armed_world\<lparr>store := newMemoryStorage\<lparr>stopped := True\<rparr>,
                               timers := [AtCheck], recorded := [0, 0]\<rparr>)) ! 0 = Returned"
    using sampling_stops_after_shutdown[OF run_two_ticks run.simps(1)]
    by (simp add: armed_world_def)
  from run_observe_ticks run_later_events 1 2 3 4 5 show ?thesis by blast
qed

text \<open>
  C8. The key is a function of the trace identifier, and two identifiers have the same
  key exactly when they are equal. A call of \<^verbatim>\<open>createOrAppend\<close>, \<^verbatim>\<open>get\<close> or
  \<^verbatim>\<open>delete\<close> for one identifier leaves the entry of every other identifier as it was,
  and the contents of its batches too when they are allocated.
\<close>

theorem keys_do_not_collide:
  "(HexString s = HexString t \<longleftrightarrow> s = t)
   \<and> (s \<noteq> t \<longrightarrow>
        fmlookup (content (fst (snd (createOrAppend s rs st h)))) (HexString t)
          = fmlookup (content st) (HexString t)
      \<and> fmlookup (content (fst (snd (get s st h)))) (HexString t)
          = fmlookup (content st) (HexString t)
      \<and> fmlookup (content (fst (snd (delete s st h)))) (HexString t)
          = fmlookup (content st) (HexString t))
   \<and> (s \<noteq> t \<and> (\<forall>a\<in>set (elems (index_map (content st) (HexString t))). a < length h) \<longrightarrow>
        stored_values (fst (snd (createOrAppend s rs st h)))
            (snd (snd (createOrAppend s rs st h))) t = stored_values st h t
      \<and> stored_values (fst (snd (get s st h))) (snd (snd (get s st h))) t
          = stored_values st h t
      \<and> stored_values (fst (snd (delete s st h))) (snd (snd (delete s st h))) t
          = stored_values st h t)"
proof -
  have m: "s \<noteq> t \<longrightarrow>
        fmlookup (content (fst (snd (createOrAppend s rs st h)))) (HexString t)
          = fmlookup (content st) (HexString t)
      \<and> fmlookup (content (fst (snd (get s st h)))) (HexString t)
          = fmlookup (content st) (HexString t)
      \<and> fmlookup (content (fst (snd (delete s st h)))) (HexString t)
          = fmlookup (content st) (HexString t)"
    by (simp add: HexString_eq_iff createOrAppend_eq get_store delete_eq)
  obtain xs where g: "snd (snd (get s st h)) = h @ xs" using get_heap by blast
  obtain ys where d: "snd (snd (delete s st h)) = h @ ys"
    using copy_each_shape[of _ NilSlice h] by (auto simp: delete_eq)
  have c: "snd (snd (createOrAppend s rs st h)) = h @ [(h @ [None]) ! rs]"
    by (simp add: createOrAppend_eq)
  have v: "s \<noteq> t \<and> (\<forall>a\<in>set (elems (index_map (content st) (HexString t))). a < length h) \<longrightarrow>
        stored_values (fst (snd (createOrAppend s rs st h)))
            (snd (snd (createOrAppend s rs st h))) t = stored_values st h t
      \<and> stored_values (fst (snd (get s st h))) (snd (snd (get s st h))) t
          = stored_values st h t
      \<and> stored_values (fst (snd (delete s st h))) (snd (snd (delete s st h))) t
          = stored_values st h t"
    using m by (auto simp only: g d c intro!: stored_values_frame)
  from m v HexString_eq_iff[of s t] show ?thesis by blast
qed

lemma allocated_after_scenario:
  "\<forall>a\<in>set (elems (index_map (content (store after_scenario)) (HexString bb22))).
      a < length (heap after_scenario)"
  by (simp add: after_scenario_def index_map_def HexString_bb22)

lemma stored_bb22: "stored_values (store after_scenario) (heap after_scenario) bb22 = [Some 3]"
  by (simp add: stored_values_def after_scenario_def index_map_def HexString_bb22
      eval_nat_numeral)

theorem keys_do_not_collide_witness:
  "aa11 \<noteq> bb22
   \<and> HexString aa11 \<noteq> HexString bb22
   \<and> fmlookup (content (fst (snd (createOrAppend aa11 0 (store after_scenario)
        (heap after_scenario))))) (HexString bb22) = Some (Slice [4])
   \<and> fmlookup (content (fst (snd (delete aa11 (store after_scenario)
        (heap after_scenario))))) (HexString bb22) = Some (Slice [4])
   \<and> stored_values (fst (snd (delete aa11 (store after_scenario) (heap after_scenario))))
        (snd (snd (delete aa11 (store after_scenario) (heap after_scenario)))) bb22 = [Some 3]
   \<and> stored_values (fst (snd (createOrAppend aa11 0 (store after_scenario)
        (heap after_scenario))))
        (snd (snd (createOrAppend aa11 0 (store after_scenario) (heap after_scenario)))) bb22
       = [Some 3]"
proof -
  note inst = keys_do_not_collide[of aa11 bb22 0 "store after_scenario" "heap after_scenario"]
  have l: "fmlookup (content (store after_scenario)) (HexString bb22) = Some (Slice [4])"
    by (simp add: after_scenario_def HexString_bb22)
  from inst aa11_neq_bb22 allocated_after_scenario l stored_bb22
  show ?thesis by simp
qed

end
